theory Spec2Isabelle
  imports Main "HOL-Library.AList"
begin

section \<open>JavaScript values\<close>

text \<open>
  The adapter passes values through without inspecting them, except for three tests:
  truthiness (\<^verbatim>\<open>if(err)\<close>), a strict comparison with \<^verbatim>\<open>undefined\<close>, and the
  result interpretation of \<^verbatim>\<open>_handleResult\<close> (a property read of \<^verbatim>\<open>then\<close> and
  \<^verbatim>\<open>instanceof Error\<close>). The value type has one constructor for each kind of value
  these tests tell apart. Numbers are integers plus \<^verbatim>\<open>NaN\<close>. An object is the list of
  its own enumerable properties in insertion order. A thenable is an object whose
  \<^verbatim>\<open>then\<close> is a function, with the state it settles to. An entity wrapper, as a
  value, is its own enumerable properties, the delegate record it holds (the record's
  properties, or nothing), and the names of those of its members that a property
  assignment has replaced (none in a wrapper as the constructor builds it).

  The state of a promise, and of a thenable: \<open>Pending\<close> is not resolved (for a thenable:
  it never settles); \<open>Following\<close> is resolved with a thenable that never settles, so the
  promise never settles and later calls of \<^verbatim>\<open>resolve\<close> and \<^verbatim>\<open>reject\<close> change
  nothing.
\<close>

datatype ('a, 'e) promise = Pending | Following | Fulfilled 'a | Rejected 'e

datatype err_class = Error | TypeError | ReferenceError

datatype jsval =
    VUndefined
  | VNull
  | VBool bool
  | VNum int
  | VNaN
  | VStr string
  | VObj "(string \<times> jsval) list"
  | VError err_class string
  | VThenable "(jsval, jsval) promise"
  | VWrapper "(string \<times> jsval) list" "(string \<times> jsval) list option" "string list"

type_synonym fields = "(string \<times> jsval) list"

text \<open>JavaScript's ToBoolean, the test behind \<^verbatim>\<open>if(err)\<close> and \<^verbatim>\<open>err ? a : b\<close>.\<close>

fun truthy :: "jsval \<Rightarrow> bool" where
  "truthy VUndefined = False"
| "truthy VNull = False"
| "truthy (VBool b) = b"
| "truthy (VNum n) = (n \<noteq> 0)"
| "truthy VNaN = False"
| "truthy (VStr s) = (s \<noteq> [])"
| "truthy (VObj fs) = True"
| "truthy (VError c m) = True"
| "truthy (VThenable p) = True"
| "truthy (VWrapper fs ent replaced) = True"

section \<open>Promises\<close>

text \<open>
  The promise library is external. A promise is modelled by its state, and the
  \<^verbatim>\<open>resolve\<close> and \<^verbatim>\<open>reject\<close> capabilities handed to an executor are state
  transformers of which the first call wins. A promise that is resolved with a value
  that is not a thenable is fulfilled with that value. A promise that is resolved with a
  thenable adopts the thenable's settlement: it is rejected with the thenable's reason,
  resolved in turn with the value the thenable fulfils with, and never settles when the
  thenable never does. \<open>adopt v\<close> is the state a promise reaches when it is resolved
  with \<open>v\<close>. An executor that throws rejects the promise with the thrown value.
\<close>

fun adopt :: "jsval \<Rightarrow> (jsval, jsval) promise" where
  "adopt (VThenable Pending) = Following"
| "adopt (VThenable Following) = Following"
| "adopt (VThenable (Fulfilled v)) = adopt v"
| "adopt (VThenable (Rejected e)) = Rejected e"
| "adopt v = Fulfilled v"

definition resolve :: "jsval \<Rightarrow> (jsval, jsval) promise \<Rightarrow> (jsval, jsval) promise" where
  "resolve v p = (case p of Pending \<Rightarrow> adopt v | _ \<Rightarrow> p)"

definition reject :: "'e \<Rightarrow> ('a, 'e) promise \<Rightarrow> ('a, 'e) promise" where
  "reject e p = (case p of Pending \<Rightarrow> Rejected e | _ \<Rightarrow> p)"

definition new_Promise ::
  "((jsval \<Rightarrow> (jsval, jsval) promise \<Rightarrow> (jsval, jsval) promise) \<Rightarrow>
    (jsval \<Rightarrow> (jsval, jsval) promise \<Rightarrow> (jsval, jsval) promise) \<Rightarrow>
    jsval + ((jsval, jsval) promise \<Rightarrow> (jsval, jsval) promise)) \<Rightarrow> (jsval, jsval) promise" where
  "new_Promise executor =
     (case executor resolve reject of
        Inl thrown \<Rightarrow> Rejected thrown
      | Inr run \<Rightarrow> run Pending)"

section \<open>The continuation bridge\<close>

text \<open>
  \<^verbatim>\<open>
  const completesPromise = (resolve, reject) => {
      return (err, res) => {
          if(err) return reject(err);
          resolve(res);
      };
  };
  \<close>
\<close>

definition completesPromise ::
  "(jsval \<Rightarrow> 's \<Rightarrow> 's) \<Rightarrow> (jsval \<Rightarrow> 's \<Rightarrow> 's) \<Rightarrow> jsval \<Rightarrow> jsval \<Rightarrow> 's \<Rightarrow> 's" where
  "completesPromise resolve_fn reject_fn err res =
     (if truthy err then reject_fn err else resolve_fn res)"

section \<open>The action context wrapper\<close>

text \<open>
  The delegate (the callback based framework instance) is external. A native context is
  known by an identity and the log handle the constructor copies. Its callback based
  entry points are one parameter \<open>api\<close>: \<open>api ctx name args k\<close> is what the delegate's
  method \<open>name\<close> does to the observed state when called on \<open>ctx\<close> with the arguments
  \<open>args\<close> followed by the continuation \<open>k\<close>.
\<close>

record native_ctx =
  ctx_id :: nat
  ctx_log :: jsval

type_synonym 's continuation = "jsval \<Rightarrow> jsval \<Rightarrow> 's \<Rightarrow> 's"

type_synonym 's callback_api = "native_ctx \<Rightarrow> string \<Rightarrow> jsval list \<Rightarrow> 's continuation \<Rightarrow> 's \<Rightarrow> 's"

text \<open>
  \<^verbatim>\<open>new SenecaPromisified(seneca)\<close> allocates an object with the properties
  \<^verbatim>\<open>_seneca\<close> and \<^verbatim>\<open>log\<close>. Object identity is a number taken from an allocation
  counter, the heap. \<open>prior_set\<close> says that the property \<^verbatim>\<open>prior\<close> holds the
  module's \<^verbatim>\<open>prior\<close> function.
\<close>

record wrapped_ctx =
  oid :: nat
  seneca :: native_ctx
  log_handle :: jsval
  prior_set :: bool

type_synonym heap = nat

definition SenecaPromisified :: "native_ctx \<Rightarrow> heap \<Rightarrow> wrapped_ctx \<times> heap" where
  "SenecaPromisified seneca_ctx h =
     (\<lparr>oid = h, seneca = seneca_ctx, log_handle = ctx_log seneca_ctx, prior_set = False\<rparr>, Suc h)"

definition create :: "native_ctx \<Rightarrow> heap \<Rightarrow> wrapped_ctx \<times> heap" where
  "create seneca_ctx h = SenecaPromisified seneca_ctx h"

text \<open>
  \<^verbatim>\<open>
  const prior = function(args) {
      const seneca = this._seneca;
      return new Promise((resolve, reject) => {
          seneca.prior(args, completesPromise(resolve, reject));
      });
  };
  act(...args) {
      return new Promise((resolve, reject) => {
          this._seneca.act.apply(this._seneca,
              args.concat(completesPromise(resolve, reject)));
      });
  }
  \<close>
\<close>

definition prior ::
  "(jsval, jsval) promise callback_api \<Rightarrow> wrapped_ctx \<Rightarrow> jsval \<Rightarrow> (jsval, jsval) promise" where
  "prior api this_ctx args =
     (let seneca_ctx = seneca this_ctx in
      new_Promise (\<lambda>resolve_fn reject_fn.
        Inr (api seneca_ctx ''prior'' [args] (completesPromise resolve_fn reject_fn))))"





subsection \<open>Result interpretation\<close>

text \<open>
  \<^verbatim>\<open>
  _handleResult(res, done) {
      if(typeof res.then === 'function') {
          res.then(done.bind(null, null), done);
      } else if(res instanceof Error) {
          done(err);
      } else {
          done(null, res);
      }
  }
  \<close>
  The property read \<^verbatim>\<open>res.then\<close> throws a TypeError on \<^verbatim>\<open>null\<close> and
  \<^verbatim>\<open>undefined\<close>. In the second branch no binding of the identifier \<^verbatim>\<open>err\<close> is in
  scope (the parameters are \<^verbatim>\<open>res\<close> and \<^verbatim>\<open>done\<close>, and the module declares
  none), so evaluating the argument of \<^verbatim>\<open>done(err)\<close> throws a ReferenceError
  before \<^verbatim>\<open>done\<close> is called. The messages of thrown errors
  are the engine's; the model fixes one text for each.
\<close>

definition read_then :: "jsval \<Rightarrow> jsval + (jsval, jsval) promise option" where
  "read_then res =
     (case res of
        VUndefined \<Rightarrow> Inl (VError TypeError ''Cannot read property then of undefined'')
      | VNull \<Rightarrow> Inl (VError TypeError ''Cannot read property then of null'')
      | VThenable p \<Rightarrow> Inr (Some p)
      | _ \<Rightarrow> Inr None)"

definition instanceof_Error :: "jsval \<Rightarrow> bool" where
  "instanceof_Error res = (case res of VError c m \<Rightarrow> True | _ \<Rightarrow> False)"

text \<open>
  \<^verbatim>\<open>res.then(onFulfilled, onRejected)\<close> on a thenable: the handler for the state the
  thenable settles to runs with the settled value; none runs when it never settles.
\<close>

definition then_call ::
  "(jsval, jsval) promise \<Rightarrow> (jsval \<Rightarrow> 's \<Rightarrow> 's) \<Rightarrow> (jsval \<Rightarrow> 's \<Rightarrow> 's) \<Rightarrow> 's \<Rightarrow> 's" where
  "then_call p on_fulfilled on_rejected s =
     (case p of
        Pending \<Rightarrow> s
      | Following \<Rightarrow> s
      | Fulfilled v \<Rightarrow> on_fulfilled v s
      | Rejected e \<Rightarrow> on_rejected e s)"

definition handleResult :: "jsval \<Rightarrow> 's continuation \<Rightarrow> 's \<Rightarrow> jsval + 's" where
  "handleResult res done_fn s =
     (case read_then res of
        Inl thrown \<Rightarrow> Inl thrown
      | Inr (Some p) \<Rightarrow> Inr (then_call p (done_fn VNull) (\<lambda>e. done_fn e VUndefined) s)
      | Inr None \<Rightarrow>
          if instanceof_Error res then Inl (VError ReferenceError ''err is not defined'')
          else Inr (done_fn VNull res s))"

subsection \<open>Registering handlers and loading plugins\<close>

text \<open>
  An argument of \<^verbatim>\<open>add\<close> or \<^verbatim>\<open>use\<close> is a plain value or a function. What the
  wrapper hands to the delegate is either such an argument passed on as it is, or a
  closure it has built (\<^verbatim>\<open>wrappedHandler\<close>, \<^verbatim>\<open>loader\<close>), given by what the
  closure does when the delegate calls it.
  A user handler called as \<^verbatim>\<open>handler.call(this, args, ctx)\<close> returns a value (\<open>Inr\<close>)
  or throws one (\<open>Inl\<close>).
\<close>

datatype 'f arg = Val jsval | Fn 'f

datatype ('f, 'c) delegate_arg = Pass "'f arg" | Closure 'c

type_synonym handler = "wrapped_ctx \<Rightarrow> jsval \<Rightarrow> wrapped_ctx \<Rightarrow> jsval + jsval"

type_synonym plugin = "wrapped_ctx \<Rightarrow> wrapped_ctx \<Rightarrow> jsval + jsval"

definition arg_at :: "'f arg list \<Rightarrow> nat \<Rightarrow> 'f arg" where
  "arg_at xs i = (if i < length xs then xs ! i else Val VUndefined)"

definition is_string :: "'f arg \<Rightarrow> bool" where
  "is_string a = (case a of Val (VStr s) \<Rightarrow> True | _ \<Rightarrow> False)"

definition not_a_function :: jsval where
  "not_a_function = VError TypeError ''not a function''"

text \<open>
  \<^verbatim>\<open>
  const wrappedHandler = function(args, done) {
      const seneca = this;
      const wrapped = create(seneca);
      wrapped.prior = prior;
      const res = handler.call(wrapped, args, wrapped);
      handleResult(res, done);
  };
  \<close>
  The result is the heap after the call and either the thrown value or the state after
  the calls of \<^verbatim>\<open>done\<close>.
\<close>

definition wrappedHandler ::
  "handler arg \<Rightarrow> native_ctx \<Rightarrow> jsval \<Rightarrow> 's continuation \<Rightarrow> heap \<Rightarrow> 's \<Rightarrow> heap \<times> (jsval + 's)" where
  "wrappedHandler handler_arg this_ctx args done_fn h s =
     (let seneca_ctx = this_ctx;
          (wrapped0, h') = create seneca_ctx h;
          wrapped = wrapped0\<lparr>prior_set := True\<rparr>
      in case handler_arg of
           Val v \<Rightarrow> (h', Inl not_a_function)
         | Fn handler_fn \<Rightarrow>
             (case handler_fn wrapped args wrapped of
                Inl thrown \<Rightarrow> (h', Inl thrown)
              | Inr res \<Rightarrow> (h', handleResult res done_fn s)))"

text \<open>
  \<^verbatim>\<open>
  add(pat, ...rest) {
      const handler = rest.length > 1 ? rest[1] : rest[0];
      ...
      if(rest.length > 1) {
          this._seneca.add(pat, rest[0], wrappedHandler);
      } else {
          this._seneca.add(pat, wrappedHandler);
      }
  }
  \<close>
  The value is the argument list of the call of the delegate's \<^verbatim>\<open>add\<close>.
\<close>

definition add ::
  "jsval \<Rightarrow> handler arg list \<Rightarrow>
   (handler, native_ctx \<Rightarrow> jsval \<Rightarrow> 's continuation \<Rightarrow> heap \<Rightarrow> 's \<Rightarrow> heap \<times> (jsval + 's))
     delegate_arg list" where
  "add pat rest =
     (let handler_arg = (if length rest > 1 then arg_at rest 1 else arg_at rest 0) in
      if length rest > 1
      then [Pass (Val pat), Pass (arg_at rest 0), Closure (wrappedHandler handler_arg)]
      else [Pass (Val pat), Closure (wrappedHandler handler_arg)])"

text \<open>
  \<^verbatim>\<open>
  use(...args) {
      if(typeof args[0] === 'string') {
          return this._seneca.use.apply(this._seneca, args);
      }
      const plugin = typeof args[0] === 'string' ? args[1] : args[0];
      const create = this.create;
      const loader = function() {
          const seneca = this;
          const wrapped = create(seneca);
          plugin.call(wrapped, wrapped);
      };
      if(args.length > 1) {
          this._seneca.use(args[0], loader);
      } else {
          this._seneca.use(loader);
      }
  }
  \<close>
  The value is the argument list of the call of the delegate's \<^verbatim>\<open>use\<close>.
\<close>

definition loader :: "plugin arg \<Rightarrow> native_ctx \<Rightarrow> heap \<Rightarrow> heap \<times> (jsval + jsval)" where
  "loader plugin_arg this_ctx h =
     (let seneca_ctx = this_ctx;
          (wrapped, h') = create seneca_ctx h
      in case plugin_arg of
           Val v \<Rightarrow> (h', Inl not_a_function)
         | Fn plugin_fn \<Rightarrow>
             (case plugin_fn wrapped wrapped of
                Inl thrown \<Rightarrow> (h', Inl thrown)
              | Inr returned \<Rightarrow> (h', Inr VUndefined)))"

definition use ::
  "plugin arg list \<Rightarrow>
   (plugin, native_ctx \<Rightarrow> heap \<Rightarrow> heap \<times> (jsval + jsval)) delegate_arg list" where
  "use args =
     (if is_string (arg_at args 0) then map Pass args
      else
        let plugin_arg = (if is_string (arg_at args 0) then arg_at args 1 else arg_at args 0) in
        if length args > 1 then [Pass (arg_at args 0), Closure (loader plugin_arg)]
        else [Closure (loader plugin_arg)])"

text \<open>
  The compiled build at the repository root differs in \<^verbatim>\<open>use\<close>: it reads
  \<^verbatim>\<open>var plugin = typeof args[0] === 'string' ? args[1] : arg[0];\<close> where no
  \<^verbatim>\<open>arg\<close> is bound, so every call whose first argument is not a string throws.
\<close>

definition use_compiled ::
  "plugin arg list \<Rightarrow>
   jsval + (plugin, native_ctx \<Rightarrow> heap \<Rightarrow> heap \<times> (jsval + jsval)) delegate_arg list" where
  "use_compiled args =
     (if is_string (arg_at args 0) then Inr (map Pass args)
      else Inl (VError ReferenceError ''arg is not defined''))"

text \<open>A completion continuation that records the calls made to it, in order.\<close>

definition record_done :: "(jsval \<times> jsval) list continuation" where
  "record_done err res calls = calls @ [(err, res)]"

section \<open>The entity wrapper\<close>

text \<open>
  A wrapper holds its own enumerable properties (the data fields assigned to it) and, in
  the non-enumerable \<^verbatim>\<open>_entity\<close>, the delegate record: the record's own enumerable
  properties, or nothing when the constructor was given \<^verbatim>\<open>null\<close> or
  \<^verbatim>\<open>undefined\<close>. The enumerable properties a wrapper inherits are the reserved
  accessors, whose names end in \<^verbatim>\<open>$\<close>; both loops skip such names, so they are left
  out of the enumeration. What a delegate record inherits from its prototype belongs to
  the delegate and is not part of the model.

  An \<open>entity_wrapper\<close> is a wrapper whose members are in place: its own fields are taken
  not to be named like the wrapper's methods, since a field of such a name would stand
  in the method's place. The one operation of the wrapper that can write such a name
  onto it is \<^verbatim>\<open>_fromEntToWrapper\<close>; what it yields then is not an \<open>entity_wrapper\<close>
  (see \<open>copy_result\<close> below).
\<close>

record entity_wrapper =
  own_fields :: fields
  entity :: "fields option"

text \<open>A wrapper whose members are in place, as a value.\<close>

definition Wrapper :: "entity_wrapper \<Rightarrow> jsval" where
  "Wrapper w = VWrapper (own_fields w) (entity w) []"

definition SenecaEntityWrapper :: "fields option \<Rightarrow> entity_wrapper" where
  "SenecaEntityWrapper ent = \<lparr>own_fields = [], entity = ent\<rparr>"

definition entity_fields :: "entity_wrapper \<Rightarrow> fields" where
  "entity_fields w = (case entity w of None \<Rightarrow> [] | Some e \<Rightarrow> e)"

text \<open>\<^verbatim>\<open>k[k.length - 1] === '$'\<close> and \<^verbatim>\<open>k[0] === '_'\<close>; both are false of the empty name.\<close>

definition ends_dollar :: "string \<Rightarrow> bool" where
  "ends_dollar k = (k \<noteq> [] \<and> last k = CHR ''$'')"

definition starts_underscore :: "string \<Rightarrow> bool" where
  "starts_underscore k = (k \<noteq> [] \<and> hd k = CHR ''_'')"

text \<open>A property read \<^verbatim>\<open>obj[k]\<close>: \<^verbatim>\<open>undefined\<close> when the property is absent.\<close>

definition prop_get :: "fields \<Rightarrow> string \<Rightarrow> jsval" where
  "prop_get fs k = (case map_of fs k of None \<Rightarrow> VUndefined | Some v \<Rightarrow> v)"

text \<open>
  \<^verbatim>\<open>for(var k in obj) body\<close>: the names are those the object has when the loop starts;
  a name whose property was deleted before its turn is skipped; a statement that
  throws ends the loop.
\<close>

fun for_in ::
  "string list \<Rightarrow> ('s \<Rightarrow> fields) \<Rightarrow> (string \<Rightarrow> 's \<Rightarrow> jsval + 's) \<Rightarrow> 's \<Rightarrow> jsval + 's" where
  "for_in [] obj body s = Inr s"
| "for_in (k # ks) obj body s =
     (if k \<in> fst ` set (obj s) then
        (case body k s of
           Inl thrown \<Rightarrow> Inl thrown
         | Inr s' \<Rightarrow> for_in ks obj body s')
      else for_in ks obj body s)"

text \<open>
  \<^verbatim>\<open>
  _forDataInWrapper(fn) {
      for(var k in this) {
          if(k[k.length - 1] !== '$' && k[0] !== '_') {
              fn(this[k], k);
          }
      }
  }
  _forDataInEnt(fn) {
      for(var k in this._entity) {
          if(k[k.length - 1] !== '$') {
              fn(this._entity[k], k);
          }
      }
  }
  \<close>
\<close>

definition forDataInWrapper ::
  "(jsval \<Rightarrow> string \<Rightarrow> entity_wrapper \<Rightarrow> jsval + entity_wrapper) \<Rightarrow>
   entity_wrapper \<Rightarrow> jsval + entity_wrapper" where
  "forDataInWrapper fn w =
     for_in (map fst (own_fields w)) own_fields
       (\<lambda>k s. if \<not> ends_dollar k \<and> \<not> starts_underscore k
               then fn (prop_get (own_fields s) k) k s else Inr s) w"

definition forDataInEnt ::
  "(jsval \<Rightarrow> string \<Rightarrow> entity_wrapper \<Rightarrow> jsval + entity_wrapper) \<Rightarrow>
   entity_wrapper \<Rightarrow> jsval + entity_wrapper" where
  "forDataInEnt fn w =
     for_in (map fst (entity_fields w)) entity_fields
       (\<lambda>k s. if \<not> ends_dollar k
               then fn (prop_get (entity_fields s) k) k s else Inr s) w"

text \<open>
  \<^verbatim>\<open>
  _clearEnt()         { this._forDataInEnt((_ , k) => { delete this._entity[k]; }); }
  _fromWrapperToEnt() { this._forDataInWrapper((val, k) => { this._entity[k] = val; }); }
  _fromEntToWrapper() { this._forDataInEnt((val, k) => { this[k] = val; }); }
  \<close>
  A property access on an absent record throws a TypeError.

  The assignment \<^verbatim>\<open>this[k] = val\<close> of \<^verbatim>\<open>_fromEntToWrapper\<close> depends on the name:
  \<^item> \<^verbatim>\<open>_entity\<close>: the constructor defines it with \<^verbatim>\<open>Object.defineProperty\<close> and a
    value only, so it is read-only, and class code is strict: the assignment throws a
    TypeError, which ends the loop;
  \<^item> \<^verbatim>\<open>__proto__\<close>: the assignment creates no property; it replaces the wrapper's
    prototype, and with it every method, when the value is an object or \<^verbatim>\<open>null\<close>,
    and does nothing otherwise;
  \<^item> the name of a method that a later \<^verbatim>\<open>save$\<close>, \<^verbatim>\<open>load$\<close>, \<^verbatim>\<open>list$\<close> or
    \<^verbatim>\<open>remove$\<close> on this wrapper calls (\<open>replaceable_members\<close>): the field becomes an
    own property that stands in the method's place, so a call that reaches it
    throws a TypeError (in the promise's executor, before the delegate is called, or,
    for \<^verbatim>\<open>_callWithOpt\<close>, before the promise is made);
  \<^item> any other name: the field becomes an own property.
  The result of the copy says which of these happened: an exception, a wrapper whose
  members are in place, or the object with the names of its replaced members, which is
  not a wrapper the operations of this model apply to. An object whose prototype has
  been replaced is described no further than that: what it inherits from the new
  prototype is not modelled, and the properties below are stated for records with no
  field named \<^verbatim>\<open>__proto__\<close>.
\<close>

definition no_entity :: jsval where
  "no_entity = VError TypeError ''Cannot access a property of undefined''"

definition read_only :: jsval where
  "read_only = VError TypeError ''Cannot assign to read only property _entity''"

definition clearEnt :: "entity_wrapper \<Rightarrow> jsval + entity_wrapper" where
  "clearEnt w =
     forDataInEnt (\<lambda>val k s.
       case entity s of
         None \<Rightarrow> Inl no_entity
       | Some e \<Rightarrow> Inr (s\<lparr>entity := Some (AList.delete k e)\<rparr>)) w"

definition fromWrapperToEnt :: "entity_wrapper \<Rightarrow> jsval + entity_wrapper" where
  "fromWrapperToEnt w =
     forDataInWrapper (\<lambda>val k s.
       case entity s of
         None \<Rightarrow> Inl no_entity
       | Some e \<Rightarrow> Inr (s\<lparr>entity := Some (AList.update k val e)\<rparr>)) w"

definition replaceable_members :: "string list" where
  "replaceable_members =
     [''_forDataInWrapper'', ''_forDataInEnt'', ''_clearEnt'', ''_fromWrapperToEnt'',
      ''_callWithOpt'']"

definition is_object_or_null :: "jsval \<Rightarrow> bool" where
  "is_object_or_null v =
     (case v of
        VNull \<Rightarrow> True
      | VObj fs \<Rightarrow> True
      | VError c m \<Rightarrow> True
      | VThenable p \<Rightarrow> True
      | VWrapper fs ent replaced \<Rightarrow> True
      | _ \<Rightarrow> False)"

text \<open>The members of a new wrapper that copying the record \<open>e\<close> onto it replaces.\<close>

definition replaced_members :: "fields \<Rightarrow> string list" where
  "replaced_members e =
     filter (\<lambda>k. \<not> ends_dollar k \<and>
                (k \<in> set replaceable_members \<or>
                 k = ''__proto__'' \<and> is_object_or_null (prop_get e k)))
       (map fst e)"

text \<open>
  The names that a record's fields must not have if the copy is to run through and leave
  every member of the wrapper in place.
\<close>

definition wrapper_members :: "string list" where
  "wrapper_members = ''_entity'' # ''__proto__'' # replaceable_members"

datatype copy_result =
    Throws jsval
  | Intact entity_wrapper
  | Damaged entity_wrapper "string list"

definition fromEntToWrapper :: "entity_wrapper \<Rightarrow> copy_result" where
  "fromEntToWrapper w =
     (case forDataInEnt (\<lambda>val k s.
             if k = ''_entity'' then Inl read_only
             else if k = ''__proto__'' then Inr s
             else Inr (s\<lparr>own_fields := AList.update k val (own_fields s)\<rparr>)) w of
        Inl thrown \<Rightarrow> Throws thrown
      | Inr w' \<Rightarrow>
          (let replaced = replaced_members (entity_fields w) in
           if replaced = [] then Intact w' else Damaged w' replaced))"

text \<open>
  The record's asynchronous operations are the parameter \<open>eapi\<close>: \<open>eapi e name args k\<close>
  is what the method \<open>name\<close> of a record with the fields \<open>e\<close> does to the observed
  state when called with the arguments \<open>args\<close> followed by the continuation \<open>k\<close>. The
  continuation receives an error value and a record, or nothing in its place.
  \<^verbatim>\<open>
  _callWithOpt(opt, prop) {
      return new Promise((resolve, reject) => {
          const onComplete = (err, ent) => {
              if(err) return reject(err);
              const wrapped = new SenecaEntityWrapper(ent);
              wrapped._fromEntToWrapper();
              resolve(wrapped);
          };
          if(opt !== undefined) {
              this._entity[prop](opt, onComplete);
          } else {
              this._clearEnt();
              this._fromWrapperToEnt();
              this._entity[prop](onComplete);
          }
      });
  }
  \<close>
  The delegate of this model answers while its method is running, that is inside the
  promise's executor. An exception inside \<^verbatim>\<open>onComplete\<close> then passes through the
  delegate's method to the promise's constructor, which rejects the promise with it,
  as a call of \<^verbatim>\<open>reject\<close> does. (A delegate that answers after its method has
  returned gets the exception itself, and the promise stays as it is; such a delegate is
  not part of the model.) The promise is resolved with the new wrapper object also when
  the copy has replaced members of it. The value of \<open>callWithOpt\<close> is the
  wrapper after the call and the promise returned.
\<close>

type_synonym 's entity_api =
  "fields \<Rightarrow> string \<Rightarrow> jsval list \<Rightarrow> (jsval \<Rightarrow> fields option \<Rightarrow> 's \<Rightarrow> 's) \<Rightarrow> 's \<Rightarrow> 's"

definition onComplete ::
  "(jsval \<Rightarrow> 's \<Rightarrow> 's) \<Rightarrow> (jsval \<Rightarrow> 's \<Rightarrow> 's) \<Rightarrow> jsval \<Rightarrow> fields option \<Rightarrow> 's \<Rightarrow> 's" where
  "onComplete resolve_fn reject_fn err ent =
     (if truthy err then reject_fn err
      else
        case fromEntToWrapper (SenecaEntityWrapper ent) of
          Throws thrown \<Rightarrow> reject_fn thrown
        | Intact wrapped \<Rightarrow> resolve_fn (Wrapper wrapped)
        | Damaged wrapped replaced \<Rightarrow>
            resolve_fn (VWrapper (own_fields wrapped) (entity wrapped) replaced))"

definition callWithOpt ::
  "(jsval, jsval) promise entity_api \<Rightarrow> jsval \<Rightarrow> string \<Rightarrow> entity_wrapper \<Rightarrow>
   entity_wrapper \<times> (jsval, jsval) promise" where
  "callWithOpt eapi opt prop w =
     (if opt \<noteq> VUndefined then
        (w, new_Promise (\<lambda>resolve_fn reject_fn.
              case entity w of
                None \<Rightarrow> Inl no_entity
              | Some e \<Rightarrow> Inr (eapi e prop [opt] (onComplete resolve_fn reject_fn))))
      else
        (case clearEnt w of
           Inl thrown \<Rightarrow> (w, new_Promise (\<lambda>resolve_fn reject_fn. Inl thrown))
         | Inr w1 \<Rightarrow>
             (case fromWrapperToEnt w1 of
                Inl thrown \<Rightarrow> (w1, new_Promise (\<lambda>resolve_fn reject_fn. Inl thrown))
              | Inr w2 \<Rightarrow>
                  (w2, new_Promise (\<lambda>resolve_fn reject_fn.
                         case entity w2 of
                           None \<Rightarrow> Inl no_entity
                         | Some e \<Rightarrow> Inr (eapi e prop [] (onComplete resolve_fn reject_fn)))))))"

text \<open>
  \<^verbatim>\<open>
  save$(obj)     { return this._callWithOpt(obj, 'save$'); }
  remove$(query) { return this._callWithOpt(query, 'remove$'); }
  \<close>
  An omitted parameter is \<^verbatim>\<open>undefined\<close>.
\<close>

definition save_dollar ::
  "(jsval, jsval) promise entity_api \<Rightarrow> jsval \<Rightarrow> entity_wrapper \<Rightarrow>
   entity_wrapper \<times> (jsval, jsval) promise" where
  "save_dollar eapi obj w = callWithOpt eapi obj ''save$'' w"

definition load_dollar ::
  "(jsval, jsval) promise entity_api \<Rightarrow> jsval \<Rightarrow> entity_wrapper \<Rightarrow>
   entity_wrapper \<times> (jsval, jsval) promise" where
  "load_dollar eapi query w = callWithOpt eapi query ''load$'' w"

definition list_dollar ::
  "(jsval, jsval) promise entity_api \<Rightarrow> jsval \<Rightarrow> entity_wrapper \<Rightarrow>
   entity_wrapper \<times> (jsval, jsval) promise" where
  "list_dollar eapi query w = callWithOpt eapi query ''list$'' w"


text \<open>
  \<^verbatim>\<open>
  const inheritsSymbolics = ['fields', 'is', 'canon', 'native', 'data', 'clone'];
  inheritsSymbolics.forEach((key) => {
      const symbolicKey = key + '$';
      SenecaEntityWrapper.prototype[symbolicKey] = function() {
          this._entity[symbolicKey].apply(this._entity, arguments);
      };
  });
  \<close>
  The record's synchronous operations are the parameter \<open>sapi\<close>: \<open>sapi e name args d\<close>
  is the value the operation returns and the delegate's state after it. The function
  body is a single expression statement, so the call's value is dropped and the function
  returns \<^verbatim>\<open>undefined\<close>.
\<close>

type_synonym 'd sync_api = "fields \<Rightarrow> string \<Rightarrow> jsval list \<Rightarrow> 'd \<Rightarrow> jsval \<times> 'd"

definition inheritsSymbolics :: "string list" where
  "inheritsSymbolics = [''fields'', ''is'', ''canon'', ''native'', ''data'', ''clone'']"

definition symbolic ::
  "'d sync_api \<Rightarrow> string \<Rightarrow> entity_wrapper \<Rightarrow> jsval list \<Rightarrow> 'd \<Rightarrow> (jsval + jsval) \<times> 'd" where
  "symbolic sapi symbolicKey w arguments d =
     (case entity w of
        None \<Rightarrow> (Inl no_entity, d)
      | Some e \<Rightarrow>
          (let (result, d') = sapi e symbolicKey arguments d
           in (Inr VUndefined, d')))"

definition prototype_symbolics ::
  "'d sync_api \<Rightarrow> (string \<times> (entity_wrapper \<Rightarrow> jsval list \<Rightarrow> 'd \<Rightarrow> (jsval + jsval) \<times> 'd)) list" where
  "prototype_symbolics sapi =
     map (\<lambda>key. let symbolicKey = key @ ''$'' in (symbolicKey, symbolic sapi symbolicKey))
       inheritsSymbolics"

section \<open>Properties of the continuation bridge\<close>

lemma new_Promise_Inr:
  "new_Promise (\<lambda>resolve_fn reject_fn. Inr (run resolve_fn reject_fn)) = run resolve reject Pending"
  by (simp add: new_Promise_def)

lemma new_Promise_Inl: "new_Promise (\<lambda>resolve_fn reject_fn. Inl thrown) = Rejected thrown"
  by (simp add: new_Promise_def)




lemma completesPromise_settled:
  "p \<noteq> Pending \<Longrightarrow> completesPromise resolve reject err res p = p"
  by (cases p) (simp_all add: completesPromise_def resolve_def reject_def)

section \<open>Properties of the entity wrapper's field copies\<close>

lemma for_in_clear:
  "for_in ks entity_fields
     (\<lambda>k s. if \<not> ends_dollar k
        then (case entity s of None \<Rightarrow> Inl no_entity
              | Some e \<Rightarrow> Inr (s\<lparr>entity := Some (AList.delete k e)\<rparr>))
        else Inr s)
     (w\<lparr>entity := Some e\<rparr>)
   = Inr (w\<lparr>entity := Some (filter (\<lambda>(k, v). ends_dollar k \<or> k \<notin> set ks) e)\<rparr>)"
proof (induction ks arbitrary: e)
  case Nil
  then show ?case by simp
next
  case (Cons k ks)
  have del: "AList.delete k e = filter (\<lambda>(k', v). k' \<noteq> k) e"
    by (induction e) auto
  show ?case
  proof (cases "ends_dollar k")
    case True
    have "filter (\<lambda>(k', v). ends_dollar k' \<or> k' \<notin> set ks) e
        = filter (\<lambda>(k', v). ends_dollar k' \<or> k' \<notin> set (k # ks)) e"
      using True by (intro filter_cong) auto
    with True Cons.IH [of e] show ?thesis by simp
  next
    case False
    have eq: "filter (\<lambda>(k', v). ends_dollar k' \<or> k' \<notin> set ks) (AList.delete k e)
        = filter (\<lambda>(k', v). ends_dollar k' \<or> k' \<notin> set (k # ks)) e"
      using False unfolding del filter_filter by (intro filter_cong) auto
    show ?thesis
    proof (cases "k \<in> fst ` set e")
      case True
      with False Cons.IH [of "AList.delete k e"] eq show ?thesis
        by (simp add: entity_fields_def)
    next
      case nin: False
      then have "AList.delete k e = e" by simp
      with nin False Cons.IH [of e] eq show ?thesis
        by (simp add: entity_fields_def)
    qed
  qed
qed

lemma clearEnt_Some:
  assumes "entity w = Some e"
  shows "clearEnt w = Inr (w\<lparr>entity := Some (filter (\<lambda>(k, v). ends_dollar k) e)\<rparr>)"
proof -
  have w: "w = w\<lparr>entity := Some e\<rparr>" using assms by simp
  have "filter (\<lambda>(k, v). ends_dollar k \<or> k \<notin> set (map fst e)) e = filter (\<lambda>(k, v). ends_dollar k) e"
    by (intro filter_cong) force+
  then show ?thesis
    using for_in_clear [where ks = "map fst e" and w = w and e = e] assms w
    by (simp add: clearEnt_def forDataInEnt_def entity_fields_def)
qed


lemma prop_get_Some: "k \<in> fst ` set fs \<Longrightarrow> map_of fs k = Some (prop_get fs k)"
  by (cases "map_of fs k") (auto simp: prop_get_def map_of_eq_None_iff)

lemma for_in_to_ent:
  assumes "set ks \<subseteq> fst ` set (own_fields w)"
  shows "\<exists>e'. for_in ks own_fields
           (\<lambda>k s. if \<not> ends_dollar k \<and> \<not> starts_underscore k
              then (case entity s of None \<Rightarrow> Inl no_entity
                    | Some e \<Rightarrow> Inr (s\<lparr>entity := Some (AList.update k (prop_get (own_fields s) k) e)\<rparr>))
              else Inr s)
           (w\<lparr>entity := Some e\<rparr>) = Inr (w\<lparr>entity := Some e'\<rparr>) \<and>
         (\<forall>k. map_of e' k =
            (if k \<in> set ks \<and> \<not> ends_dollar k \<and> \<not> starts_underscore k
             then map_of (own_fields w) k else map_of e k))"
  using assms
proof (induction ks arbitrary: e)
  case Nil
  then show ?case by (intro exI [of _ e]) simp
next
  case (Cons k ks)
  then have kin: "k \<in> fst ` set (own_fields w)" and sub: "set ks \<subseteq> fst ` set (own_fields w)"
    by auto
  show ?case
  proof (cases "\<not> ends_dollar k \<and> \<not> starts_underscore k")
    case True
    define e1 where "e1 = AList.update k (prop_get (own_fields w) k) e"
    from Cons.IH [OF sub, of e1] obtain e' where
      run: "for_in ks own_fields
           (\<lambda>k s. if \<not> ends_dollar k \<and> \<not> starts_underscore k
              then (case entity s of None \<Rightarrow> Inl no_entity
                    | Some e \<Rightarrow> Inr (s\<lparr>entity := Some (AList.update k (prop_get (own_fields s) k) e)\<rparr>))
              else Inr s)
           (w\<lparr>entity := Some e1\<rparr>) = Inr (w\<lparr>entity := Some e'\<rparr>)"
      and look: "\<And>k'. map_of e' k' =
            (if k' \<in> set ks \<and> \<not> ends_dollar k' \<and> \<not> starts_underscore k'
             then map_of (own_fields w) k' else map_of e1 k')"
      by blast
    have "map_of e' k' =
            (if k' \<in> set (k # ks) \<and> \<not> ends_dollar k' \<and> \<not> starts_underscore k'
             then map_of (own_fields w) k' else map_of e k')" for k'
      using look [of k'] True prop_get_Some [OF kin]
      by (auto simp: e1_def AList.update_conv')
    with run True kin show ?thesis
      by (auto simp: e1_def)
  next
    case False
    from Cons.IH [OF sub, of e] obtain e' where
      run: "for_in ks own_fields
           (\<lambda>k s. if \<not> ends_dollar k \<and> \<not> starts_underscore k
              then (case entity s of None \<Rightarrow> Inl no_entity
                    | Some e \<Rightarrow> Inr (s\<lparr>entity := Some (AList.update k (prop_get (own_fields s) k) e)\<rparr>))
              else Inr s)
           (w\<lparr>entity := Some e\<rparr>) = Inr (w\<lparr>entity := Some e'\<rparr>)"
      and look: "\<And>k'. map_of e' k' =
            (if k' \<in> set ks \<and> \<not> ends_dollar k' \<and> \<not> starts_underscore k'
             then map_of (own_fields w) k' else map_of e k')"
      by blast
    have "map_of e' k' =
            (if k' \<in> set (k # ks) \<and> \<not> ends_dollar k' \<and> \<not> starts_underscore k'
             then map_of (own_fields w) k' else map_of e k')" for k'
      using look [of k'] False by auto
    with run False kin show ?thesis
      by auto
  qed
qed

lemma fromWrapperToEnt_Some:
  assumes "entity w = Some e"
  shows "\<exists>e'. fromWrapperToEnt w = Inr (w\<lparr>entity := Some e'\<rparr>) \<and>
         (\<forall>k. map_of e' k =
            (if k \<in> fst ` set (own_fields w) \<and> \<not> ends_dollar k \<and> \<not> starts_underscore k
             then map_of (own_fields w) k else map_of e k))"
proof -
  have w: "w\<lparr>entity := Some e\<rparr> = w" using assms by simp
  have "set (map fst (own_fields w)) \<subseteq> fst ` set (own_fields w)" by simp
  from for_in_to_ent [OF this, of e] show ?thesis
    unfolding w fromWrapperToEnt_def forDataInWrapper_def by simp
qed


lemma for_in_to_wrapper:
  assumes "set ks \<subseteq> fst ` set e" and "''_entity'' \<notin> set ks"
  shows "\<exists>d'. for_in ks entity_fields
           (\<lambda>k s. if \<not> ends_dollar k
              then (if k = ''_entity'' then Inl read_only
                    else if k = ''__proto__'' then Inr s
                    else Inr (s\<lparr>own_fields := AList.update k (prop_get (entity_fields s) k) (own_fields s)\<rparr>))
              else Inr s)
           \<lparr>own_fields = d, entity = Some e\<rparr> = Inr \<lparr>own_fields = d', entity = Some e\<rparr> \<and>
         (\<forall>k. map_of d' k =
            (if k \<in> set ks \<and> \<not> ends_dollar k \<and> k \<noteq> ''__proto__'' then map_of e k else map_of d k))"
  using assms
proof (induction ks arbitrary: d)
  case Nil
  then show ?case by (intro exI [of _ d]) simp
next
  case (Cons k ks)
  then have kin: "k \<in> fst ` set e" and sub: "set ks \<subseteq> fst ` set e"
    and ne: "k \<noteq> ''_entity''" and nin: "''_entity'' \<notin> set ks"
    by auto
  define d1 where
    "d1 = (if ends_dollar k \<or> k = ''__proto__'' then d else AList.update k (prop_get e k) d)"
  from Cons.IH [OF sub nin, of d1] obtain d' where
    run: "for_in ks entity_fields
           (\<lambda>k s. if \<not> ends_dollar k
              then (if k = ''_entity'' then Inl read_only
                    else if k = ''__proto__'' then Inr s
                    else Inr (s\<lparr>own_fields := AList.update k (prop_get (entity_fields s) k) (own_fields s)\<rparr>))
              else Inr s)
           \<lparr>own_fields = d1, entity = Some e\<rparr> = Inr \<lparr>own_fields = d', entity = Some e\<rparr>"
    and look: "\<And>k'. map_of d' k' =
            (if k' \<in> set ks \<and> \<not> ends_dollar k' \<and> k' \<noteq> ''__proto__'' then map_of e k' else map_of d1 k')"
    by blast
  have look': "\<forall>k'. map_of d' k' =
          (if k' \<in> set (k # ks) \<and> \<not> ends_dollar k' \<and> k' \<noteq> ''__proto__'' then map_of e k' else map_of d k')"
    using look prop_get_Some [OF kin]
    by (auto simp: d1_def AList.update_conv')
  have "for_in (k # ks) entity_fields
           (\<lambda>k s. if \<not> ends_dollar k
              then (if k = ''_entity'' then Inl read_only
                    else if k = ''__proto__'' then Inr s
                    else Inr (s\<lparr>own_fields := AList.update k (prop_get (entity_fields s) k) (own_fields s)\<rparr>))
              else Inr s)
           \<lparr>own_fields = d, entity = Some e\<rparr> = Inr \<lparr>own_fields = d', entity = Some e\<rparr>"
    using run kin ne
    by (cases "ends_dollar k"; cases "k = ''__proto__''") (simp_all add: d1_def entity_fields_def)
  with look' show ?case by blast
qed



lemma fromEntToWrapper_copies:
  assumes "''_entity'' \<notin> fst ` set e"
  shows "\<exists>d'. fromEntToWrapper \<lparr>own_fields = d, entity = Some e\<rparr>
              = (if replaced_members e = [] then Intact \<lparr>own_fields = d', entity = Some e\<rparr>
                 else Damaged \<lparr>own_fields = d', entity = Some e\<rparr> (replaced_members e)) \<and>
         (\<forall>k. map_of d' k =
            (if k \<in> fst ` set e \<and> \<not> ends_dollar k \<and> k \<noteq> ''__proto__''
             then map_of e k else map_of d k))"
proof -
  have "set (map fst e) \<subseteq> fst ` set e" and "''_entity'' \<notin> set (map fst e)"
    using assms by simp_all
  from for_in_to_wrapper [OF this, of d] obtain d' where
    run: "for_in (map fst e) entity_fields
           (\<lambda>k s. if \<not> ends_dollar k
              then (if k = ''_entity'' then Inl read_only
                    else if k = ''__proto__'' then Inr s
                    else Inr (s\<lparr>own_fields := AList.update k (prop_get (entity_fields s) k) (own_fields s)\<rparr>))
              else Inr s)
           \<lparr>own_fields = d, entity = Some e\<rparr> = Inr \<lparr>own_fields = d', entity = Some e\<rparr>"
    and look: "\<forall>k. map_of d' k =
            (if k \<in> set (map fst e) \<and> \<not> ends_dollar k \<and> k \<noteq> ''__proto__''
             then map_of e k else map_of d k)"
    by blast
  have "fromEntToWrapper \<lparr>own_fields = d, entity = Some e\<rparr>
              = (if replaced_members e = [] then Intact \<lparr>own_fields = d', entity = Some e\<rparr>
                 else Damaged \<lparr>own_fields = d', entity = Some e\<rparr> (replaced_members e))"
    using run by (simp add: fromEntToWrapper_def forDataInEnt_def entity_fields_def)
  with look show ?thesis by auto
qed

lemma replaced_members_clean:
  assumes "fst ` set e \<inter> set wrapper_members = {}"
  shows "replaced_members e = []" and "''_entity'' \<notin> fst ` set e" and "''__proto__'' \<notin> fst ` set e"
proof -
  show "''_entity'' \<notin> fst ` set e" and p: "''__proto__'' \<notin> fst ` set e"
    using assms by (auto simp: wrapper_members_def)
  have "\<not> (k \<in> set replaceable_members \<or> k = ''__proto__'' \<and> is_object_or_null (prop_get e k))"
    if "k \<in> set (map fst e)" for k
  proof -
    from that have "k \<in> fst ` set e" by simp
    with assms have "k \<notin> set wrapper_members" by blast
    then show ?thesis by (simp add: wrapper_members_def)
  qed
  then show "replaced_members e = []"
    unfolding replaced_members_def filter_empty_conv by blast
qed

lemma fromEntToWrapper_clean:
  assumes "fst ` set e \<inter> set wrapper_members = {}"
  shows "\<exists>d'. fromEntToWrapper \<lparr>own_fields = d, entity = Some e\<rparr>
              = Intact \<lparr>own_fields = d', entity = Some e\<rparr> \<and>
         (\<forall>k. map_of d' k =
            (if k \<in> fst ` set e \<and> \<not> ends_dollar k then map_of e k else map_of d k))"
proof -
  note clean = replaced_members_clean [OF assms]
  from fromEntToWrapper_copies [OF clean(2), of d] obtain d' where
    run: "fromEntToWrapper \<lparr>own_fields = d, entity = Some e\<rparr> = Intact \<lparr>own_fields = d', entity = Some e\<rparr>"
    and look: "\<And>k. map_of d' k =
            (if k \<in> fst ` set e \<and> \<not> ends_dollar k \<and> k \<noteq> ''__proto__''
             then map_of e k else map_of d k)"
    using clean(1) by auto
  have "map_of d' k = (if k \<in> fst ` set e \<and> \<not> ends_dollar k then map_of e k else map_of d k)" for k
    using look [of k] clean(3) by auto
  with run show ?thesis by blast
qed


lemma map_of_filter_key:
  "map_of (filter (\<lambda>(k, v). P k) fs) k = (if P k then map_of fs k else None)"
  by (induction fs) auto

lemma callWithOpt_given:
  assumes "opt \<noteq> VUndefined"
  shows "callWithOpt eapi opt prop w =
           (w, case entity w of
                 None \<Rightarrow> Rejected no_entity
               | Some e \<Rightarrow> eapi e prop [opt] (onComplete resolve reject) Pending)"
  using assms by (simp add: callWithOpt_def new_Promise_def split: option.splits)

lemma callWithOpt_omitted:
  assumes "entity w = Some e"
  shows "\<exists>e'. callWithOpt eapi VUndefined prop w =
               (w\<lparr>entity := Some e'\<rparr>, eapi e' prop [] (onComplete resolve reject) Pending) \<and>
          (\<forall>k. \<not> ends_dollar k \<longrightarrow>
             map_of e' k = (if starts_underscore k then None else map_of (own_fields w) k)) \<and>
          (\<forall>k. ends_dollar k \<longrightarrow> map_of e' k = map_of e k)"
proof -
  define c where "c = filter (\<lambda>(k, v). ends_dollar k) e"
  define w1 where "w1 = w\<lparr>entity := Some c\<rparr>"
  have clear: "clearEnt w = Inr w1"
    using clearEnt_Some [OF assms] by (simp add: w1_def c_def)
  have "entity w1 = Some c" by (simp add: w1_def)
  from fromWrapperToEnt_Some [OF this] obtain e' where
    copy: "fromWrapperToEnt w1 = Inr (w\<lparr>entity := Some e'\<rparr>)"
    and look: "\<And>k. map_of e' k =
            (if k \<in> fst ` set (own_fields w) \<and> \<not> ends_dollar k \<and> \<not> starts_underscore k
             then map_of (own_fields w) k else map_of c k)"
    by (auto simp: w1_def)
  have c: "map_of c k = (if ends_dollar k then map_of e k else None)" for k
    unfolding c_def by (rule map_of_filter_key)
  have absent: "k \<notin> fst ` set (own_fields w) \<Longrightarrow> map_of (own_fields w) k = None" for k
    by (simp add: map_of_eq_None_iff)
  have "callWithOpt eapi VUndefined prop w =
          (w\<lparr>entity := Some e'\<rparr>, eapi e' prop [] (onComplete resolve reject) Pending)"
    by (simp add: callWithOpt_def clear copy new_Promise_def)
  moreover have "\<forall>k. \<not> ends_dollar k \<longrightarrow>
             map_of e' k = (if starts_underscore k then None else map_of (own_fields w) k)"
    using look c absent by auto
  moreover have "\<forall>k. ends_dollar k \<longrightarrow> map_of e' k = map_of e k"
    using look c by auto
  ultimately show ?thesis by blast
qed






section \<open>The handler adapter\<close>

lemma thenable_not_self: "VThenable (Fulfilled v) \<noteq> v"
proof
  assume "VThenable (Fulfilled v) = v"
  then have "size (VThenable (Fulfilled v)) = size v" by simp
  then show False by simp
qed

lemma handleResult_cases:
  "handleResult (VError c m) done_fn s = Inl (VError ReferenceError ''err is not defined'')"
  "handleResult (VThenable (Fulfilled v)) done_fn s = Inr (done_fn VNull v s)"
  "handleResult (VThenable (Rejected e)) done_fn s = Inr (done_fn e VUndefined s)"
  "handleResult (VThenable Pending) done_fn s = Inr s"
  "handleResult (VBool b) done_fn s = Inr (done_fn VNull (VBool b) s)"
  "handleResult (VNum n) done_fn s = Inr (done_fn VNull (VNum n) s)"
  "handleResult VNaN done_fn s = Inr (done_fn VNull VNaN s)"
  "handleResult (VStr t) done_fn s = Inr (done_fn VNull (VStr t) s)"
  "handleResult (VObj fs) done_fn s = Inr (done_fn VNull (VObj fs) s)"
  "\<exists>msg. handleResult VNull done_fn s = Inl (VError TypeError msg)"
  "\<exists>msg. handleResult VUndefined done_fn s = Inl (VError TypeError msg)"
  "handleResult (VThenable Following) done_fn s = Inr s"
  "handleResult (VWrapper ws ent replaced) done_fn s = Inr (done_fn VNull (VWrapper ws ent replaced) s)"
  by (simp_all add: handleResult_def read_then_def instanceof_Error_def then_call_def)

lemma wrappedHandler_Fn:
  "wrappedHandler (Fn handler_fn) this_ctx args done_fn h s =
     (Suc h,
      case handler_fn \<lparr>oid = h, seneca = this_ctx, log_handle = ctx_log this_ctx, prior_set = True\<rparr>
             args \<lparr>oid = h, seneca = this_ctx, log_handle = ctx_log this_ctx, prior_set = True\<rparr> of
        Inl thrown \<Rightarrow> Inl thrown
      | Inr res \<Rightarrow> handleResult res done_fn s)"
  by (simp add: wrappedHandler_def create_def SenecaPromisified_def split: sum.splits)

section \<open>The claims\<close>




text \<open>
  C2, evaluated where the code departs from it. A handler registered through \<^verbatim>\<open>add\<close>
  that returns an error value: the wrapped handler throws a ReferenceError and never
  calls \<^verbatim>\<open>done\<close> (the recorded calls are lost with the exception), where the claim
  has \<^verbatim>\<open>done(err, undefined)\<close>. The other two parts of the claim hold: a thenable
  hands its settlement to \<^verbatim>\<open>done\<close>, and a plain value is passed as
  \<^verbatim>\<open>done(null, result)\<close>.
\<close>

theorem handler_returning_error_throws:
  "add pat [Fn (\<lambda>this_arg args ctx. Inr (VError Error ''boom''))]
     = [Pass (Val pat), Closure (wrappedHandler (Fn (\<lambda>this_arg args ctx. Inr (VError Error ''boom''))))] \<and>
   wrappedHandler (Fn (\<lambda>this_arg args ctx. Inr (VError Error ''boom''))) this_ctx args record_done h []
     = (Suc h, Inl (VError ReferenceError ''err is not defined'')) \<and>
   wrappedHandler (Fn (\<lambda>this_arg args ctx. Inr (VThenable (Fulfilled v)))) this_ctx args record_done h []
     = (Suc h, Inr [(VNull, v)]) \<and>
   wrappedHandler (Fn (\<lambda>this_arg args ctx. Inr (VThenable (Rejected e)))) this_ctx args record_done h []
     = (Suc h, Inr [(e, VUndefined)]) \<and>
   wrappedHandler (Fn (\<lambda>this_arg args ctx. Inr (VObj fs))) this_ctx args record_done h []
     = (Suc h, Inr [(VNull, VObj fs)])"
  by (simp add: add_def arg_at_def wrappedHandler_Fn handleResult_cases record_done_def)

text \<open>
  C8. The closure that \<^verbatim>\<open>add\<close> registers allocates a new context object on every call:
  its identity is the heap's next free one, and the heap has advanced after the call, so
  the next invocation gets another object (here the one that follows). The context wraps
  the native context the delegate called the closure on and has \<^verbatim>\<open>prior\<close> set. The user
  handler receives the invocation's arguments first and that context both as
  \<^verbatim>\<open>this\<close> and as second parameter. \<^verbatim>\<open>prior\<close> on that context returns the promise
  that the delegate's \<^verbatim>\<open>prior\<close> of the same native context settles through the bridged
  continuation.
\<close>

theorem wrappedHandler_fresh_context:
  "add pat [Fn handler_fn] = [Pass (Val pat), Closure (wrappedHandler (Fn handler_fn))] \<and>
   add pat [config, Fn handler_fn]
     = [Pass (Val pat), Pass config, Closure (wrappedHandler (Fn handler_fn))] \<and>
   wrappedHandler (Fn handler_fn) this_ctx args done_fn h s =
     (Suc h,
      case handler_fn \<lparr>oid = h, seneca = this_ctx, log_handle = ctx_log this_ctx, prior_set = True\<rparr>
             args \<lparr>oid = h, seneca = this_ctx, log_handle = ctx_log this_ctx, prior_set = True\<rparr> of
        Inl thrown \<Rightarrow> Inl thrown
      | Inr res \<Rightarrow> handleResult res done_fn s) \<and>
   wrappedHandler (Fn handler_fn) this_ctx' args' done_fn
       (fst (wrappedHandler (Fn handler_fn) this_ctx args done_fn h s)) s' =
     (Suc (Suc h),
      case handler_fn \<lparr>oid = Suc h, seneca = this_ctx', log_handle = ctx_log this_ctx', prior_set = True\<rparr>
             args' \<lparr>oid = Suc h, seneca = this_ctx', log_handle = ctx_log this_ctx', prior_set = True\<rparr> of
        Inl thrown \<Rightarrow> Inl thrown
      | Inr res \<Rightarrow> handleResult res done_fn s') \<and>
   prior api \<lparr>oid = h, seneca = this_ctx, log_handle = ctx_log this_ctx, prior_set = True\<rparr> arg
     = api this_ctx ''prior'' [arg] (completesPromise resolve reject) Pending"
  by (simp add: add_def arg_at_def wrappedHandler_Fn prior_def new_Promise_Inr)

text \<open>
  C9, evaluated where the code departs from it. \<^verbatim>\<open>use(plugin, options)\<close> with a plugin
  function: the delegate's \<^verbatim>\<open>use\<close> receives the plugin function itself as first
  argument and the loader in the place of the options, which are dropped; the claim has
  the first argument replaced by the loader. In the compiled build at the repository
  root every call of \<^verbatim>\<open>use\<close> with a function throws a ReferenceError. The rest of the
  claim holds: a string first argument forwards all arguments; a single function
  argument is replaced by the loader; and the loader builds a new wrapped context around
  the native context it is called on and calls the plugin with it as \<^verbatim>\<open>this\<close> and
  as argument.
\<close>

theorem use_with_options_passes_plugin_unwrapped:
  "use [Fn plugin_fn, Val options] = [Pass (Fn plugin_fn), Closure (loader (Fn plugin_fn))] \<and>
   use_compiled [Fn plugin_fn] = Inl (VError ReferenceError ''arg is not defined'') \<and>
   use (Val (VStr name) # others) = map Pass (Val (VStr name) # others) \<and>
   use [Fn plugin_fn] = [Closure (loader (Fn plugin_fn))] \<and>
   loader (Fn plugin_fn) this_ctx h =
     (Suc h,
      case plugin_fn \<lparr>oid = h, seneca = this_ctx, log_handle = ctx_log this_ctx, prior_set = False\<rparr>
             \<lparr>oid = h, seneca = this_ctx, log_handle = ctx_log this_ctx, prior_set = False\<rparr> of
        Inl thrown \<Rightarrow> Inl thrown
      | Inr returned \<Rightarrow> Inr VUndefined)"
  by (simp add: use_def use_compiled_def arg_at_def is_string_def loader_def create_def
      SenecaPromisified_def split: sum.splits)

text \<open>
  C10. \<^verbatim>\<open>_handleResult\<close> reads \<^verbatim>\<open>res.then\<close> with no guard: when the handler returns
  \<^verbatim>\<open>null\<close> or \<^verbatim>\<open>undefined\<close> the wrapped handler throws a TypeError and \<^verbatim>\<open>done\<close>
  is not called. The success call \<^verbatim>\<open>done(null, res)\<close> is made exactly when the result
  is neither \<^verbatim>\<open>null\<close> nor \<^verbatim>\<open>undefined\<close>, not a thenable and not an error value.
\<close>

theorem handleResult_no_null_guard:
  "(handler_fn \<lparr>oid = h, seneca = this_ctx, log_handle = ctx_log this_ctx, prior_set = True\<rparr> args
       \<lparr>oid = h, seneca = this_ctx, log_handle = ctx_log this_ctx, prior_set = True\<rparr> = Inr res \<and>
    (res = VNull \<or> res = VUndefined) \<longrightarrow>
      (\<exists>msg. wrappedHandler (Fn handler_fn) this_ctx args done_fn h s
                = (Suc h, Inl (VError TypeError msg)))) \<and>
   ((handleResult res record_done calls = Inr (calls @ [(VNull, res)])) =
      (res \<noteq> VNull \<and> res \<noteq> VUndefined \<and> (\<forall>p. res \<noteq> VThenable p) \<and> (\<forall>c m. res \<noteq> VError c m)))"
proof (intro conjI impI)
  assume "handler_fn \<lparr>oid = h, seneca = this_ctx, log_handle = ctx_log this_ctx, prior_set = True\<rparr> args
       \<lparr>oid = h, seneca = this_ctx, log_handle = ctx_log this_ctx, prior_set = True\<rparr> = Inr res \<and>
    (res = VNull \<or> res = VUndefined)"
  then show "\<exists>msg. wrappedHandler (Fn handler_fn) this_ctx args done_fn h s
                = (Suc h, Inl (VError TypeError msg))"
    using handleResult_cases(10,11) [of done_fn s]
    by (auto simp: wrappedHandler_Fn)
next
  show "(handleResult res record_done calls = Inr (calls @ [(VNull, res)])) =
      (res \<noteq> VNull \<and> res \<noteq> VUndefined \<and> (\<forall>p. res \<noteq> VThenable p) \<and> (\<forall>c m. res \<noteq> VError c m))"
  proof (cases res)
    case (VThenable p)
    then show ?thesis
      using thenable_not_self [of res] thenable_not_self [of res, symmetric]
      by (cases p) (auto simp: handleResult_def read_then_def then_call_def record_done_def)
  qed (auto simp: handleResult_def read_then_def instanceof_Error_def record_done_def)
qed

text \<open>
  Witness for C10: a handler that returns \<^verbatim>\<open>undefined\<close>, invoked on a native context
  with a recording continuation.
\<close>

theorem handleResult_no_null_guard_witness:
  "(\<lambda>this_arg args ctx. Inr VUndefined)
       \<lparr>oid = 0, seneca = \<lparr>ctx_id = 7, ctx_log = VUndefined\<rparr>, log_handle = VUndefined, prior_set = True\<rparr>
       (VObj [(''cmd'', VStr ''ping'')])
       \<lparr>oid = 0, seneca = \<lparr>ctx_id = 7, ctx_log = VUndefined\<rparr>, log_handle = VUndefined, prior_set = True\<rparr>
     = (Inr VUndefined :: jsval + jsval) \<and>
   (\<exists>msg. wrappedHandler (Fn (\<lambda>this_arg args ctx. Inr VUndefined))
              \<lparr>ctx_id = 7, ctx_log = VUndefined\<rparr> (VObj [(''cmd'', VStr ''ping'')]) record_done 0 []
            = (Suc 0, Inl (VError TypeError msg)))"
  using handleResult_no_null_guard [where handler_fn = "\<lambda>this_arg args ctx. Inr VUndefined"
      and h = 0 and this_ctx = "\<lparr>ctx_id = 7, ctx_log = VUndefined\<rparr>"
      and args = "VObj [(''cmd'', VStr ''ping'')]" and res = VUndefined
      and done_fn = record_done and s = "[]"]
  by simp

text \<open>
  C3. \<^verbatim>\<open>save$()\<close> on a wrapper that holds a delegate record: when the delegate's
  \<^verbatim>\<open>save$\<close> is called (with the continuation only), the record's fields whose names
  do not end in \<^verbatim>\<open>$\<close> are exactly the wrapper's fields whose names neither end in
  \<^verbatim>\<open>$\<close> nor start with \<^verbatim>\<open>_\<close>, with the wrapper's values; every other such field
  of the record is gone; the record's fields whose names end in \<^verbatim>\<open>$\<close> are untouched.
  The wrapper's own fields are as before.
\<close>

theorem save_without_arguments_synchronises:
  assumes "entity w = Some e"
  shows "\<exists>e'. save_dollar eapi VUndefined w =
               (w\<lparr>entity := Some e'\<rparr>, eapi e' ''save$'' [] (onComplete resolve reject) Pending) \<and>
          (\<forall>k. \<not> ends_dollar k \<longrightarrow>
             map_of e' k = (if starts_underscore k then None else map_of (own_fields w) k)) \<and>
          (\<forall>k. ends_dollar k \<longrightarrow> map_of e' k = map_of e k)"
  unfolding save_dollar_def using assms by (rule callWithOpt_omitted)

text \<open>
  Witness for C3, the scenario of the specification: a wrapper with the fields
  \<^verbatim>\<open>{id: 1, name: 'a'}\<close> whose delegate record had \<^verbatim>\<open>{obsolete: true}\<close>, and a
  delegate that hands the record it is called on back to the continuation.
\<close>

theorem save_without_arguments_synchronises_witness:
  "entity \<lparr>own_fields = [(''id'', VNum 1), (''name'', VStr ''a'')],
           entity = Some [(''obsolete'', VBool True)]\<rparr> = Some [(''obsolete'', VBool True)] \<and>
   (\<exists>e'. save_dollar (\<lambda>e name args k. k VNull (Some e)) VUndefined
            \<lparr>own_fields = [(''id'', VNum 1), (''name'', VStr ''a'')],
               entity = Some [(''obsolete'', VBool True)]\<rparr> =
          (\<lparr>own_fields = [(''id'', VNum 1), (''name'', VStr ''a'')], entity = Some e'\<rparr>,
           onComplete resolve reject VNull (Some e') Pending) \<and>
          map_of e' ''obsolete'' = None \<and>
          map_of e' ''id'' = Some (VNum 1) \<and>
          map_of e' ''name'' = Some (VStr ''a''))"
proof -
  let ?w = "\<lparr>own_fields = [(''id'', VNum 1), (''name'', VStr ''a'')],
             entity = Some [(''obsolete'', VBool True)]\<rparr>"
  have h: "entity ?w = Some [(''obsolete'', VBool True)]" by simp
  from save_without_arguments_synchronises [OF h, of "\<lambda>e name args k. k VNull (Some e)"]
  obtain e' where
    run: "save_dollar (\<lambda>e name args k. k VNull (Some e)) VUndefined ?w =
            (?w\<lparr>entity := Some e'\<rparr>, onComplete resolve reject VNull (Some e') Pending)"
    and pub: "\<And>k. \<not> ends_dollar k \<Longrightarrow>
             map_of e' k = (if starts_underscore k then None else map_of (own_fields ?w) k)"
    by blast
  have "map_of e' ''obsolete'' = None" "map_of e' ''id'' = Some (VNum 1)"
    "map_of e' ''name'' = Some (VStr ''a'')"
    using pub [of "''obsolete''"] pub [of "''id''"] pub [of "''name''"]
    by (simp_all add: ends_dollar_def starts_underscore_def)
  with run h show ?thesis by auto
qed

text \<open>
  C4. \<^verbatim>\<open>save$(obj)\<close> with \<open>obj\<close> other than \<^verbatim>\<open>undefined\<close>, on a wrapper that holds a
  delegate record: the delegate's \<^verbatim>\<open>save$\<close> is called with \<open>obj\<close> as its one argument
  before the continuation, on the record as it was; the wrapper and its record are
  unchanged by the call; and the promise does not depend on the wrapper's own fields.
\<close>

theorem save_with_override_forwards:
  assumes "obj \<noteq> VUndefined" and "entity w = Some e"
  shows "save_dollar eapi obj w =
           (w, eapi e ''save$'' [obj] (onComplete resolve reject) Pending) \<and>
         snd (save_dollar eapi obj (w\<lparr>own_fields := d\<rparr>)) = snd (save_dollar eapi obj w)"
  using assms by (simp add: save_dollar_def callWithOpt_given)

text \<open>
  Witness for C4: \<^verbatim>\<open>save$({name: 'b'})\<close> on a wrapper with the field \<^verbatim>\<open>name: 'a'\<close>
  and a delegate that hands back the record it is called on.
\<close>

theorem save_with_override_forwards_witness:
  "VObj [(''name'', VStr ''b'')] \<noteq> VUndefined \<and>
   entity \<lparr>own_fields = [(''name'', VStr ''a'')], entity = Some [(''id'', VNum 1)]\<rparr>
     = Some [(''id'', VNum 1)] \<and>
   fst (save_dollar (\<lambda>e name args k. k VNull (Some e)) (VObj [(''name'', VStr ''b'')])
     \<lparr>own_fields = [(''name'', VStr ''a'')], entity = Some [(''id'', VNum 1)]\<rparr>)
     = \<lparr>own_fields = [(''name'', VStr ''a'')], entity = Some [(''id'', VNum 1)]\<rparr>"
proof -
  have a: "VObj [(''name'', VStr ''b'')] \<noteq> VUndefined" by simp
  have b: "entity \<lparr>own_fields = [(''name'', VStr ''a'')], entity = Some [(''id'', VNum 1)]\<rparr>
     = Some [(''id'', VNum 1)]" by simp
  from save_with_override_forwards [OF a b, of "\<lambda>e name args k. k VNull (Some e)" "[]"] a b
  show ?thesis by simp
qed

text \<open>
  Counterexample to C5 as stated: the delegate record \<^verbatim>\<open>{_rev: 1, name: 'a'}\<close>. Copying
  it onto a new wrapper gives the wrapper both fields; \<^verbatim>\<open>save$()\<close> then removes
  \<^verbatim>\<open>_rev\<close> from the record and does not copy it back, so the delegate is asked to
  save \<^verbatim>\<open>{name: 'a'}\<close>, which lacks a field the wrapper had before the save.
\<close>

theorem roundtrip_drops_private_fields:
  "fromEntToWrapper (SenecaEntityWrapper (Some [(''_rev'', VNum 1), (''name'', VStr ''a'')]))
     = Intact \<lparr>own_fields = [(''_rev'', VNum 1), (''name'', VStr ''a'')],
            entity = Some [(''_rev'', VNum 1), (''name'', VStr ''a'')]\<rparr> \<and>
   save_dollar (\<lambda>e name args k. k VNull (Some e)) VUndefined
       \<lparr>own_fields = [(''_rev'', VNum 1), (''name'', VStr ''a'')],
          entity = Some [(''_rev'', VNum 1), (''name'', VStr ''a'')]\<rparr>
     = (\<lparr>own_fields = [(''_rev'', VNum 1), (''name'', VStr ''a'')],
          entity = Some [(''name'', VStr ''a'')]\<rparr>,
        Fulfilled (Wrapper \<lparr>own_fields = [(''name'', VStr ''a'')],
                             entity = Some [(''name'', VStr ''a'')]\<rparr>)) \<and>
   \<not> ends_dollar ''_rev'' \<and>
   map_of [(''name'', VStr ''a'')] ''_rev''
     \<noteq> map_of [(''_rev'', VNum 1), (''name'', VStr ''a'')] ''_rev''"
  by (simp add: fromEntToWrapper_def fromWrapperToEnt_def clearEnt_def forDataInEnt_def
      forDataInWrapper_def SenecaEntityWrapper_def entity_fields_def prop_get_def
      ends_dollar_def starts_underscore_def save_dollar_def callWithOpt_def new_Promise_def
      onComplete_def resolve_def reject_def Wrapper_def replaced_members_def
      replaceable_members_def is_object_or_null_def)

text \<open>
  C5, as amended. For a delegate record none of whose fields is named \<^verbatim>\<open>_entity\<close>,
  \<^verbatim>\<open>__proto__\<close> or like one of the wrapper's methods \<^verbatim>\<open>_forDataInWrapper\<close>,
  \<^verbatim>\<open>_forDataInEnt\<close>, \<^verbatim>\<open>_clearEnt\<close>, \<^verbatim>\<open>_fromWrapperToEnt\<close>,
  \<^verbatim>\<open>_callWithOpt\<close>: a new wrapper around it, after copying, has its members in place
  and holds the record's fields whose names do not end in \<^verbatim>\<open>$\<close>; \<^verbatim>\<open>save$()\<close> then
  has the delegate save a record whose fields with names not ending in \<^verbatim>\<open>$\<close> are
  the wrapper's pre-save fields with names neither ending in \<^verbatim>\<open>$\<close> nor starting
  with \<^verbatim>\<open>_\<close>. When no field of the record with a name not ending in \<^verbatim>\<open>$\<close>
  starts with \<^verbatim>\<open>_\<close>, these are all the wrapper's pre-save fields with names not
  ending in \<^verbatim>\<open>$\<close>.
\<close>

theorem roundtrip_persists_public_fields:
  assumes "fst ` set e \<inter> set wrapper_members = {}"
  shows "\<exists>w1 e2.
           fromEntToWrapper (SenecaEntityWrapper (Some e)) = Intact w1 \<and>
           (\<forall>k. map_of (own_fields w1) k = (if ends_dollar k then None else map_of e k)) \<and>
           save_dollar eapi VUndefined w1 =
             (w1\<lparr>entity := Some e2\<rparr>, eapi e2 ''save$'' [] (onComplete resolve reject) Pending) \<and>
           (\<forall>k. \<not> ends_dollar k \<longrightarrow>
              map_of e2 k = (if starts_underscore k then None else map_of (own_fields w1) k)) \<and>
           ((\<forall>k. k \<in> fst ` set e \<and> \<not> ends_dollar k \<longrightarrow> \<not> starts_underscore k) \<longrightarrow>
              (\<forall>k. \<not> ends_dollar k \<longrightarrow> map_of e2 k = map_of (own_fields w1) k))"
proof -
  from fromEntToWrapper_clean [OF assms, of "[]"] obtain d where
    copy: "fromEntToWrapper \<lparr>own_fields = [], entity = Some e\<rparr> = Intact \<lparr>own_fields = d, entity = Some e\<rparr>"
    and look: "\<And>k. map_of d k = (if k \<in> fst ` set e \<and> \<not> ends_dollar k then map_of e k else map_of [] k)"
    by blast
  define w1 where "w1 = \<lparr>own_fields = d, entity = Some e\<rparr>"
  have d: "map_of (own_fields w1) k = (if ends_dollar k then None else map_of e k)" for k
    using look [of k]
    by (auto simp: w1_def map_of_eq_None_iff [symmetric] simp del: map_of_eq_None_iff)
  have "entity w1 = Some e" by (simp add: w1_def)
  from callWithOpt_omitted [OF this, of eapi "''save$''"] obtain e2 where
    run: "save_dollar eapi VUndefined w1 =
            (w1\<lparr>entity := Some e2\<rparr>, eapi e2 ''save$'' [] (onComplete resolve reject) Pending)"
    and pub: "\<And>k. \<not> ends_dollar k \<Longrightarrow>
            map_of e2 k = (if starts_underscore k then None else map_of (own_fields w1) k)"
    unfolding save_dollar_def by blast
  have all: "map_of e2 k = map_of (own_fields w1) k"
    if none: "\<forall>k. k \<in> fst ` set e \<and> \<not> ends_dollar k \<longrightarrow> \<not> starts_underscore k"
      and k: "\<not> ends_dollar k" for k
  proof (cases "starts_underscore k")
    case True
    with none k have "k \<notin> fst ` set e" by blast
    then have "map_of e k = None" by (simp add: map_of_eq_None_iff)
    with True k pub [OF k] d [of k] show ?thesis by simp
  next
    case False
    with pub [OF k] show ?thesis by simp
  qed
  show ?thesis
  proof (intro exI conjI allI impI)
    show "fromEntToWrapper (SenecaEntityWrapper (Some e)) = Intact w1"
      using copy by (simp add: SenecaEntityWrapper_def w1_def)
    show "map_of (own_fields w1) k = (if ends_dollar k then None else map_of e k)" for k
      by (rule d)
    show "save_dollar eapi VUndefined w1 =
            (w1\<lparr>entity := Some e2\<rparr>, eapi e2 ''save$'' [] (onComplete resolve reject) Pending)"
      by (rule run)
    show "map_of e2 k = (if starts_underscore k then None else map_of (own_fields w1) k)"
      if "\<not> ends_dollar k" for k
      using that by (rule pub)
    show "map_of e2 k = map_of (own_fields w1) k"
      if "\<forall>k. k \<in> fst ` set e \<and> \<not> ends_dollar k \<longrightarrow> \<not> starts_underscore k"
        and "\<not> ends_dollar k" for k
      using that by (rule all)
  qed
qed

text \<open>
  Witness for C5: the record \<^verbatim>\<open>{id: 1, name: 'a'}\<close> and a delegate that hands back the
  record it is called on.
\<close>

theorem roundtrip_persists_public_fields_witness:
  "fst ` set [(''id'', VNum 1), (''name'', VStr ''a'')] \<inter> set wrapper_members = {} \<and>
   (\<exists>w1 e2.
      fromEntToWrapper (SenecaEntityWrapper (Some [(''id'', VNum 1), (''name'', VStr ''a'')])) = Intact w1 \<and>
      map_of (own_fields w1) ''id'' = Some (VNum 1) \<and>
      map_of (own_fields w1) ''name'' = Some (VStr ''a'') \<and>
      fst (save_dollar (\<lambda>e name args k. k VNull (Some e)) VUndefined w1) = w1\<lparr>entity := Some e2\<rparr> \<and>
      map_of e2 ''id'' = Some (VNum 1) \<and>
      map_of e2 ''name'' = Some (VStr ''a''))"
proof -
  let ?e = "[(''id'', VNum 1), (''name'', VStr ''a'')]"
  have h: "fst ` set ?e \<inter> set wrapper_members = {}"
    by (simp add: wrapper_members_def replaceable_members_def)
  have public: "\<forall>k. k \<in> fst ` set ?e \<and> \<not> ends_dollar k \<longrightarrow> \<not> starts_underscore k"
    by (auto simp: starts_underscore_def)
  from roundtrip_persists_public_fields [OF h, of "\<lambda>e name args k. k VNull (Some e)"]
  obtain w1 e2 where
    copy: "fromEntToWrapper (SenecaEntityWrapper (Some ?e)) = Intact w1"
    and d: "\<And>k. map_of (own_fields w1) k = (if ends_dollar k then None else map_of ?e k)"
    and run: "save_dollar (\<lambda>e name args k. k VNull (Some e)) VUndefined w1 =
             (w1\<lparr>entity := Some e2\<rparr>, onComplete resolve reject VNull (Some e2) Pending)"
    and same: "(\<forall>k. k \<in> fst ` set ?e \<and> \<not> ends_dollar k \<longrightarrow> \<not> starts_underscore k) \<longrightarrow>
              (\<forall>k. \<not> ends_dollar k \<longrightarrow> map_of e2 k = map_of (own_fields w1) k)"
    by blast
  from same public have eq: "\<And>k. \<not> ends_dollar k \<Longrightarrow> map_of e2 k = map_of (own_fields w1) k"
    by blast
  have nd: "\<not> ends_dollar ''id''" "\<not> ends_dollar ''name''"
    by (simp_all add: ends_dollar_def)
  have "map_of (own_fields w1) ''id'' = Some (VNum 1)"
    "map_of (own_fields w1) ''name'' = Some (VStr ''a'')"
    using d [of "''id''"] d [of "''name''"] nd by simp_all
  moreover from this have "map_of e2 ''id'' = Some (VNum 1)" "map_of e2 ''name'' = Some (VStr ''a'')"
    using eq [OF nd(1)] eq [OF nd(2)] by simp_all
  moreover have "fst (save_dollar (\<lambda>e name args k. k VNull (Some e)) VUndefined w1) = w1\<lparr>entity := Some e2\<rparr>"
    using run by simp
  ultimately show ?thesis using h copy by blast
qed




text \<open>
  C7, evaluated where the code departs from it. Each of the six reserved accessors calls
  the record's operation of the same name with the same arguments, but the function has
  no \<^verbatim>\<open>return\<close>: the wrapper's accessor returns \<^verbatim>\<open>undefined\<close> whatever the
  operation returned, here the canonical name \<^verbatim>\<open>'-/-/person'\<close>.
\<close>

theorem symbolic_returns_undefined:
  "map fst (prototype_symbolics sapi)
     = [''fields$'', ''is$'', ''canon$'', ''native$'', ''data$'', ''clone$''] \<and>
   map_of (prototype_symbolics sapi) ''canon$'' = Some (symbolic sapi ''canon$'') \<and>
   symbolic (\<lambda>e name args d. (VStr ''-/-/person'', d)) ''canon$''
       \<lparr>own_fields = fs, entity = Some e\<rparr> [] d = (Inr VUndefined, d) \<and>
   symbolic sapi key \<lparr>own_fields = fs, entity = Some e\<rparr> args d
     = (Inr VUndefined, snd (sapi e key args d))"
  by (simp add: prototype_symbolics_def inheritsSymbolics_def symbolic_def Let_def split: prod.splits)

end
